theory Spec2Isabelle
  imports Main "HOL-Library.Word"
begin

section \<open>The job worker: registry, process launcher and completion goroutine\<close>

text \<open>
  The package \<open>jobworker\<close> keeps three package-level variables: the map \<open>jobs\<close> from
  identifier to \<open>*Job\<close>, the lock \<open>jobsMu\<close> and the counter \<open>nextID\<close>. Every block of
  code that runs under \<open>jobsMu\<close> is taken as one atomic step, and so is a whole call of
  \<open>Start\<close>; the goroutine that \<open>Start\<close> launches is a step of its own, taken at any later
  moment. What the operating system decides (whether the process could be spawned, what
  \<open>cmd.Wait()\<close> returns, what the process wrote, its exit code) is an argument of the
  step that consumes it.
\<close>

subsection \<open>strconv.Itoa\<close>

text \<open>
  \<open>strconv.Itoa\<close> prints an \<open>int\<close> in base 10, with a leading minus sign for a negative
  number, no leading zero and no plus sign. The digit table is the one of \<open>strconv\<close>.
\<close>

definition digit :: "nat \<Rightarrow> char" where
  "digit d = ''0123456789'' ! d"

fun digits :: "nat \<Rightarrow> string" where
  "digits n = (if n < 10 then [digit n] else digits (n div 10) @ [digit (n mod 10)])"

declare digits.simps [simp del]

definition Itoa :: "int \<Rightarrow> string" where
  "Itoa i = (if i < 0 then CHR ''-'' # digits (nat (- i)) else digits (nat i))"

subsection \<open>Data\<close>

text \<open>
  A Go \<open>error\<close> is either the one built by \<open>fmt.Errorf\<close> with its message, or the one
  that \<open>os/exec\<close> hands back from \<open>cmd.Start()\<close> and \<open>cmd.Wait()\<close>.
\<close>

datatype error = Errorf string | ExecError string

text \<open>
  \<open>Job\<close> is the struct of the source. \<open>ExitCode\<close> is a \<open>*int\<close>: \<open>None\<close> is the nil
  pointer. The fields \<open>ctx\<close> and \<open>cancel\<close> are the two handles of one cancellable context;
  the record keeps the address of that context in the store \<open>ctxs\<close> of the state. The
  field \<open>cmd\<close> is the handle of the operating-system process, whose behaviour is supplied
  from outside, so the record has no counterpart of it.
\<close>

type_synonym ptr = nat

record Job =
  ID :: string
  Command :: string
  Args :: "string list"
  Status :: string
  ExitCode :: "int option"
  Stdout :: string
  Stderr :: string
  ctx :: nat

text \<open>
  The state of the package. \<open>jobs\<close> holds pointers, so the \<open>Job\<close> objects live in a store
  \<open>heap\<close>, addressed by position; \<open>Start\<close> allocates at the end. \<open>nextID\<close> is a Go \<open>int\<close>,
  64 bits wide on the platforms the server is built for, read as a signed number.
  \<open>ctxs\<close> holds one flag for every context made by \<open>context.WithCancel\<close>: \<open>True\<close> once its
  \<open>cancel\<close> has been called. \<open>waiting\<close> is the set of goroutines launched by \<open>Start\<close> that
  are still blocked in \<open>cmd.Wait()\<close>, each named by the \<open>Job\<close> it captured.
\<close>

record state =
  jobs :: "string \<rightharpoonup> ptr"
  nextID :: "64 word"
  heap :: "Job list"
  ctxs :: "bool list"
  waiting :: "ptr set"

definition init :: state where
  "init = \<lparr>jobs = Map.empty, nextID = 1, heap = [], ctxs = [], waiting = {}\<rparr>"

subsection \<open>Start\<close>

text \<open>
  The first critical section of \<open>Start\<close>: \<open>id := strconv.Itoa(nextID); nextID++\<close>.
\<close>

definition next_id :: "state \<Rightarrow> string \<times> state" where
  "next_id s = (Itoa (sint (nextID s)), s\<lparr>nextID := nextID s + 1\<rparr>)"

text \<open>
  \<open>context.WithCancel\<close> makes a fresh context, not cancelled; \<open>cancel\<close> marks it.
\<close>

definition WithCancel :: "state \<Rightarrow> nat \<times> state" where
  "WithCancel s = (length (ctxs s), s\<lparr>ctxs := ctxs s @ [False]\<rparr>)"

definition cancel :: "nat \<Rightarrow> state \<Rightarrow> state" where
  "cancel c s = s\<lparr>ctxs := (ctxs s)[c := True]\<rparr>"

text \<open>
  \<open>Start\<close> returns the pair \<open>(string, error)\<close> of the source together with the new state.
  \<open>start_err\<close> is the result of \<open>cmd.Start()\<close>. On success the new \<open>Job\<close> is allocated,
  stored under the identifier (\<open>jid\<close> here, \<open>id\<close> in the source), its goroutine is launched, and the function returns \<open>job.Status\<close>.
\<close>

definition Start :: "state \<Rightarrow> string \<Rightarrow> string list \<Rightarrow> error option \<Rightarrow> (string \<times> error option) \<times> state" where
  "Start s command args start_err =
    (let (jid, s1) = next_id s;
         (c, s2) = WithCancel s1
     in case start_err of
          Some err \<Rightarrow> (([], Some err), cancel c s2)
        | None \<Rightarrow>
            (let job = \<lparr>ID = jid, Command = command, Args = args, Status = ''Running'',
                        ExitCode = None, Stdout = [], Stderr = [], ctx = c\<rparr>;
                 p = length (heap s2);
                 s3 = s2\<lparr>heap := heap s2 @ [job]\<rparr>;
                 s4 = s3\<lparr>jobs := (jobs s3)(jid \<mapsto> p)\<rparr>;
                 s5 = s4\<lparr>waiting := insert p (waiting s4)\<rparr>
             in ((Status (heap s5 ! p), None), s5)))"

subsection \<open>The completion goroutine\<close>

text \<open>
  The body of the goroutine, after \<open>cmd.Wait()\<close> has returned \<open>wait_err\<close>: \<open>out\<close> and \<open>errs\<close>
  are the contents of the two buffers, \<open>exitCode\<close> is \<open>cmd.ProcessState.ExitCode()\<close>.
\<close>

definition finalize :: "Job \<Rightarrow> error option \<Rightarrow> string \<Rightarrow> string \<Rightarrow> int \<Rightarrow> Job" where
  "finalize job wait_err out errs exitCode =
    (let j1 = job\<lparr>Stdout := out\<rparr>;
         j2 = j1\<lparr>Stderr := errs\<rparr>;
         j3 = (if wait_err \<noteq> None then j2\<lparr>Status := ''Failed''\<rparr> else j2\<lparr>Status := ''Succeeded''\<rparr>)
     in if exitCode \<noteq> - 1 then j3\<lparr>ExitCode := Some exitCode\<rparr> else j3)"

text \<open>
  The goroutine of the job at \<open>p\<close> runs to its end: it writes through the pointer it
  captured and is gone afterwards.
\<close>

definition complete :: "state \<Rightarrow> ptr \<Rightarrow> error option \<Rightarrow> string \<Rightarrow> string \<Rightarrow> int \<Rightarrow> state" where
  "complete s p wait_err out errs exitCode =
    s\<lparr>heap := (heap s)[p := finalize (heap s ! p) wait_err out errs exitCode],
      waiting := waiting s - {p}\<rparr>"

subsection \<open>GetOutput and GetStatus\<close>

definition GetOutput :: "state \<Rightarrow> string \<Rightarrow> string \<times> string \<times> error option" where
  "GetOutput s jid =
    (case jobs s jid of
       None \<Rightarrow> ([], [], Some (Errorf ''job not found''))
     | Some p \<Rightarrow> (Stdout (heap s ! p), Stderr (heap s ! p), None))"

definition GetStatus :: "state \<Rightarrow> string \<Rightarrow> string \<times> error option" where
  "GetStatus s jid =
    (case jobs s jid of
       None \<Rightarrow> ([], Some (Errorf ''job not found''))
     | Some p \<Rightarrow> (Status (heap s ! p), None))"

subsection \<open>Stop\<close>

text \<open>
  Modelled from the spec: the function \<open>Stop\<close> of package \<open>jobworker\<close>, which
  \<open>handleStopJob\<close> and the tests call and whose body is not among the sources. The
  specification (section 4.5) gives it as: fail with \<open>NotFound\<close> if \<open>id\<close> is absent from
  the registry; otherwise trigger the job's cancellation handle, and do nothing else
  (it does not itself change the status).
\<close>

definition Stop :: "state \<Rightarrow> string \<Rightarrow> error option \<times> state" where
  "Stop s jid =
    (case jobs s jid of
       None \<Rightarrow> (Some (Errorf ''job not found''), s)
     | Some p \<Rightarrow> (None, cancel (ctx (heap s ! p)) s))"

subsection \<open>Runs of the package\<close>

text \<open>
  An event is one call of the package or the end of one goroutine. \<open>EvWait p\<close> is the
  goroutine of the job at \<open>p\<close>; it can only run if it was launched and has not run yet.
\<close>

datatype event =
    EvStart string "string list" "error option"
  | EvStop string
  | EvGetStatus string
  | EvGetOutput string
  | EvWait ptr "error option" string string int

fun exec :: "state \<Rightarrow> event \<Rightarrow> state" where
  "exec s (EvStart command args start_err) = snd (Start s command args start_err)"
| "exec s (EvStop jid) = snd (Stop s jid)"
| "exec s (EvGetStatus jid) = s"
| "exec s (EvGetOutput jid) = s"
| "exec s (EvWait p wait_err out errs exitCode) =
     (if p \<in> waiting s then complete s p wait_err out errs exitCode else s)"

definition run :: "state \<Rightarrow> event list \<Rightarrow> state" where
  "run s evs = foldl exec s evs"


text \<open>
  The identifiers that the calls of \<open>Start\<close> in a run draw from the counter, in the order
  of the calls. A call draws its identifier whether or not the process can be spawned.
\<close>

fun issued :: "state \<Rightarrow> event list \<Rightarrow> string list" where
  "issued s [] = []"
| "issued s (EvStart command args start_err # evs) =
     fst (next_id s) # issued (exec s (EvStart command args start_err)) evs"
| "issued s (e # evs) = issued (exec s e) evs"

fun starts :: "event list \<Rightarrow> nat" where
  "starts [] = 0"
| "starts (EvStart command args start_err # evs) = Suc (starts evs)"
| "starts (e # evs) = starts evs"

text \<open>
  The identifier that the call of \<open>Start\<close> number \<open>k\<close> after state \<open>s\<close> draws (counting
  from 0): the counter has been incremented \<open>k\<close> times by then.
\<close>

definition nth_id :: "state \<Rightarrow> nat \<Rightarrow> string" where
  "nth_id s k = Itoa (sint (nextID s + of_nat k))"

subsection \<open>Invariants of the state\<close>

text \<open>
  Three facts hold of every state that a run reaches, and the proofs below carry them
  along: a goroutine that has not run yet belongs to a job of the store whose status is
  still \<open>Running\<close>; every entry of \<open>jobs\<close> points into the store, at a job that carries the
  entry's key as its \<open>ID\<close>; and a job whose status is \<open>Running\<close> has no output.
\<close>

definition waiting_ok :: "state \<Rightarrow> bool" where
  "waiting_ok s \<longleftrightarrow> (\<forall>p \<in> waiting s. p < length (heap s) \<and> Status (heap s ! p) = ''Running'')"

definition jobs_ok :: "state \<Rightarrow> bool" where
  "jobs_ok s \<longleftrightarrow> (\<forall>jid p. jobs s jid = Some p \<longrightarrow> p < length (heap s) \<and> ID (heap s ! p) = jid)"

definition output_ok :: "state \<Rightarrow> bool" where
  "output_ok s \<longleftrightarrow> (\<forall>p < length (heap s). Status (heap s ! p) = ''Running'' \<longrightarrow>
     Stdout (heap s ! p) = [] \<and> Stderr (heap s ! p) = [])"

section \<open>Properties\<close>

subsection \<open>Itoa is one-to-one and prints digits\<close>

lemma lt10: "d < 10 \<Longrightarrow> d = 0 \<or> d = 1 \<or> d = 2 \<or> d = 3 \<or> d = 4 \<or> d = 5 \<or> d = 6 \<or> d = 7 \<or> d = 8 \<or> d = (9::nat)"
  by arith
lemma digit_inj: "d < 10 \<Longrightarrow> e < 10 \<Longrightarrow> digit d = digit e \<Longrightarrow> d = e"
  using lt10 [of d] lt10 [of e] by (auto simp: digit_def)

lemma digit_in: "d < 10 \<Longrightarrow> digit d \<in> set ''0123456789''"
  unfolding digit_def by (rule nth_mem) simp

lemma digits_nonempty: "digits n \<noteq> []"
  by (subst digits.simps) simp

lemma set_digits: "set (digits n) \<subseteq> set ''0123456789''"
proof (induction n rule: digits.induct)
  case (1 n)
  show ?case
  proof (cases "n < 10")
    case True
    then show ?thesis using digit_in [of n] by (subst digits.simps) simp
  next
    case False
    have "n mod 10 < 10" by simp
    then have "digit (n mod 10) \<in> set ''0123456789''" by (rule digit_in)
    with False 1 show ?thesis by (subst digits.simps) simp
  qed
qed

lemma digits_inj: "digits n = digits m \<Longrightarrow> n = m"
proof (induction n arbitrary: m rule: digits.induct)
  case (1 n)
  show ?case
  proof (cases "n < 10")
    case n: True
    show ?thesis
    proof (cases "m < 10")
      case True
      with n "1.prems" show ?thesis
        by (simp add: digits.simps [of n] digits.simps [of m] digit_inj)
    next
      case False
      with n "1.prems" digits_nonempty [of "m div 10"] show ?thesis
        by (simp add: digits.simps [of n] digits.simps [of m])
    qed
  next
    case n: False
    show ?thesis
    proof (cases "m < 10")
      case True
      with n "1.prems" digits_nonempty [of "n div 10"] show ?thesis
        by (simp add: digits.simps [of n] digits.simps [of m])
    next
      case False
      with n "1.prems" have a: "digits (n div 10) = digits (m div 10)"
        and b: "digit (n mod 10) = digit (m mod 10)"
        by (simp_all add: digits.simps [of n] digits.simps [of m])
      from n a have "n div 10 = m div 10" by (rule "1.IH")
      moreover from b have "n mod 10 = m mod 10" by (simp add: digit_inj)
      ultimately show ?thesis by (metis div_mult_mod_eq)
    qed
  qed
qed

lemma minus_not_digit: "CHR ''-'' \<notin> set (digits n)"
proof -
  have "CHR ''-'' \<notin> set ''0123456789''" by simp
  with set_digits [of n] show ?thesis by blast
qed

lemma R_not_digit: "CHR ''R'' \<notin> set (digits n)"
proof -
  have "CHR ''R'' \<notin> set ''0123456789''" by simp
  with set_digits [of n] show ?thesis by blast
qed

lemma minus_digits_neq: "CHR ''-'' # digits n \<noteq> digits m"
proof
  assume "CHR ''-'' # digits n = digits m"
  then have "CHR ''-'' \<in> set (digits m)" by (metis list.set_intros(1))
  with minus_not_digit [of m] show False by simp
qed

lemma Itoa_inj: "Itoa i = Itoa j \<Longrightarrow> i = j"
proof -
  assume eq: "Itoa i = Itoa j"
  show ?thesis
  proof (cases "i < 0")
    case i: True
    show ?thesis
    proof (cases "j < 0")
      case True
      with i eq have "digits (nat (- i)) = digits (nat (- j))" by (simp add: Itoa_def)
      then have "nat (- i) = nat (- j)" by (rule digits_inj)
      with i True show ?thesis by simp
    next
      case False
      with i eq minus_digits_neq [of "nat (- i)" "nat j"] show ?thesis by (simp add: Itoa_def)
    qed
  next
    case i: False
    show ?thesis
    proof (cases "j < 0")
      case True
      with i eq minus_digits_neq [of "nat (- j)" "nat i"] show ?thesis by (simp add: Itoa_def)
    next
      case False
      with i eq have "digits (nat i) = digits (nat j)" by (simp add: Itoa_def)
      then have "nat i = nat j" by (rule digits_inj)
      with i False show ?thesis by simp
    qed
  qed
qed

lemma Itoa_not_Running: "Itoa i \<noteq> ''Running''"
proof
  assume eq: "Itoa i = ''Running''"
  show False
  proof (cases "i < 0")
    case True
    with eq show False by (simp add: Itoa_def)
  next
    case False
    with eq have "digits (nat i) = ''Running''" by (simp add: Itoa_def)
    then have "CHR ''R'' \<in> set (digits (nat i))" by simp
    with R_not_digit [of "nat i"] show False by simp
  qed
qed

lemma Itoa_not_status: "Itoa i \<noteq> ''Succeeded'' \<and> Itoa i \<noteq> ''Failed''"
proof (cases "i < 0")
  case True
  then show ?thesis by (simp add: Itoa_def)
next
  case False
  have s: "CHR ''S'' \<notin> set ''0123456789''" and f: "CHR ''F'' \<notin> set ''0123456789''" by simp_all
  have "digits (nat i) \<noteq> ''Succeeded''"
  proof
    assume "digits (nat i) = ''Succeeded''"
    then have "CHR ''S'' \<in> set (digits (nat i))" by simp
    with set_digits [of "nat i"] s show False by blast
  qed
  moreover have "digits (nat i) \<noteq> ''Failed''"
  proof
    assume "digits (nat i) = ''Failed''"
    then have "CHR ''F'' \<in> set (digits (nat i))" by simp
    with set_digits [of "nat i"] f show False by blast
  qed
  ultimately show ?thesis using False by (simp add: Itoa_def)
qed

lemma next_id_inj: "fst (next_id s) = fst (next_id t) \<Longrightarrow> nextID s = nextID t"
proof -
  assume "fst (next_id s) = fst (next_id t)"
  then have "Itoa (sint (nextID s)) = Itoa (sint (nextID t))" by (simp add: next_id_def)
  then have "sint (nextID s) = sint (nextID t)" by (rule Itoa_inj)
  then show ?thesis by (rule signed_word_eqI)
qed

subsection \<open>What each step does to the state\<close>

lemma Start_fail_state:
  "snd (Start s command args (Some err)) = s\<lparr>nextID := nextID s + 1, ctxs := ctxs s @ [True]\<rparr>"
  by (simp add: Start_def next_id_def WithCancel_def cancel_def)

lemma Start_ok_state:
  "snd (Start s command args None) =
     s\<lparr>nextID := nextID s + 1, ctxs := ctxs s @ [False],
       heap := heap s @ [\<lparr>ID = Itoa (sint (nextID s)), Command = command, Args = args,
                           Status = ''Running'', ExitCode = None, Stdout = [], Stderr = [],
                           ctx = length (ctxs s)\<rparr>],
       jobs := (jobs s)(Itoa (sint (nextID s)) \<mapsto> length (heap s)),
       waiting := insert (length (heap s)) (waiting s)\<rparr>"
  by (simp add: Start_def next_id_def WithCancel_def Let_def)

lemma Start_ok_result: "fst (Start s command args None) = (''Running'', None)"
  by (simp add: Start_def next_id_def WithCancel_def Let_def)

lemma Start_fail_result: "fst (Start s command args (Some err)) = ([], Some err)"
  by (simp add: Start_def next_id_def WithCancel_def Let_def)

lemma Stop_state: "heap (snd (Stop s jid)) = heap s \<and> jobs (snd (Stop s jid)) = jobs s
   \<and> waiting (snd (Stop s jid)) = waiting s \<and> nextID (snd (Stop s jid)) = nextID s"
  by (simp add: Stop_def cancel_def split: option.splits)

lemma finalize_fields:
  "ID (finalize job wait_err out errs exitCode) = ID job"
  "Stdout (finalize job wait_err out errs exitCode) = out"
  "Stderr (finalize job wait_err out errs exitCode) = errs"
  "Status (finalize job wait_err out errs exitCode) = (if wait_err \<noteq> None then ''Failed'' else ''Succeeded'')"
  "ExitCode (finalize job wait_err out errs exitCode) = (if exitCode \<noteq> - 1 then Some exitCode else ExitCode job)"
  "Command (finalize job wait_err out errs exitCode) = Command job"
  "Args (finalize job wait_err out errs exitCode) = Args job"
  "ctx (finalize job wait_err out errs exitCode) = ctx job"
  by (simp_all add: finalize_def Let_def)

lemma finalize_not_Running: "Status (finalize job wait_err out errs exitCode) \<noteq> ''Running''"
  by (simp add: finalize_fields)

lemma nth_upd: "q < length xs \<Longrightarrow> xs[p := v] ! q = (if q = p then v else xs ! q)"
  by (cases "q = p") simp_all

lemma waiting_ok_exec: "waiting_ok s \<Longrightarrow> waiting_ok (exec s e)"
proof (cases e)
  case (EvStart command args start_err)
  assume w: "waiting_ok s"
  show ?thesis
  proof (cases start_err)
    case None
    with w EvStart show ?thesis
      by (auto simp: waiting_ok_def Start_ok_state nth_append)
  next
    case (Some err)
    with w EvStart show ?thesis
      by (simp add: waiting_ok_def Start_fail_state)
  qed
next
  case (EvStop jid)
  assume "waiting_ok s"
  with EvStop show ?thesis by (simp add: waiting_ok_def Stop_state)
next
  case (EvWait p wait_err out errs exitCode)
  assume "waiting_ok s"
  with EvWait show ?thesis
    by (auto simp: waiting_ok_def complete_def nth_list_update)
qed simp_all

lemma jobs_ok_exec: "jobs_ok s \<Longrightarrow> jobs_ok (exec s e)"
proof (cases e)
  case (EvStart command args start_err)
  assume w: "jobs_ok s"
  show ?thesis
  proof (cases start_err)
    case None
    with w EvStart show ?thesis
      by (auto simp: jobs_ok_def Start_ok_state nth_append less_Suc_eq)
  next
    case (Some err)
    with w EvStart show ?thesis
      by (simp add: jobs_ok_def Start_fail_state)
  qed
next
  case (EvStop jid)
  assume "jobs_ok s"
  with EvStop show ?thesis by (simp add: jobs_ok_def Stop_state)
next
  case (EvWait p wait_err out errs exitCode)
  assume j: "jobs_ok s"
  show ?thesis
  proof (cases "p \<in> waiting s")
    case True
    have "\<And>jid q. jobs s jid = Some q \<Longrightarrow>
        q < length (heap s) \<and> ID ((heap s)[p := finalize (heap s ! p) wait_err out errs exitCode] ! q) = jid"
    proof -
      fix jid q assume "jobs s jid = Some q"
      with j have q: "q < length (heap s)" "ID (heap s ! q) = jid" by (auto simp: jobs_ok_def)
      then show "q < length (heap s) \<and> ID ((heap s)[p := finalize (heap s ! p) wait_err out errs exitCode] ! q) = jid"
        by (cases "q = p") (simp_all add: finalize_fields)
    qed
    with EvWait True show ?thesis by (simp add: jobs_ok_def complete_def)
  next
    case False
    with EvWait j show ?thesis by simp
  qed
qed simp_all

lemma output_ok_exec: "output_ok s \<Longrightarrow> output_ok (exec s e)"
proof (cases e)
  case (EvStart command args start_err)
  assume w: "output_ok s"
  show ?thesis
  proof (cases start_err)
    case None
    with w EvStart show ?thesis
      by (auto simp: output_ok_def Start_ok_state nth_append less_Suc_eq)
  next
    case (Some err)
    with w EvStart show ?thesis
      by (simp add: output_ok_def Start_fail_state)
  qed
next
  case (EvStop jid)
  assume "output_ok s"
  with EvStop show ?thesis by (simp add: output_ok_def Stop_state)
next
  case (EvWait p wait_err out errs exitCode)
  assume "output_ok s"
  with EvWait show ?thesis
    by (auto simp: output_ok_def complete_def nth_upd finalize_fields)
qed simp_all

lemma run_Nil: "run s [] = s"
  by (simp add: run_def)
lemma run_Cons: "run s (e # evs) = run (exec s e) evs"
  by (simp add: run_def)
lemma run_append: "run s (evs @ evs') = run (run s evs) evs'"
  by (simp add: run_def)
lemma run_snoc: "run s (evs @ [e]) = exec (run s evs) e"
  by (simp add: run_def)

lemma waiting_ok_run: "waiting_ok s \<Longrightarrow> waiting_ok (run s evs)"
  by (induction evs arbitrary: s) (simp_all add: run_Nil run_Cons waiting_ok_exec)
lemma jobs_ok_run: "jobs_ok s \<Longrightarrow> jobs_ok (run s evs)"
  by (induction evs arbitrary: s) (simp_all add: run_Nil run_Cons jobs_ok_exec)
lemma output_ok_run: "output_ok s \<Longrightarrow> output_ok (run s evs)"
  by (induction evs arbitrary: s) (simp_all add: run_Nil run_Cons output_ok_exec)

lemma waiting_ok_init: "waiting_ok init"
  by (simp add: waiting_ok_def init_def)
lemma jobs_ok_init: "jobs_ok init"
  by (simp add: jobs_ok_def init_def)
lemma output_ok_init: "output_ok init"
  by (simp add: output_ok_def init_def)

lemma Itoa_1: "Itoa 1 = ''1''"
  by (simp add: Itoa_def digits.simps digit_def)

lemma Itoa_2: "Itoa 2 = ''2''"
  by (simp add: Itoa_def digits.simps digit_def)

subsection \<open>The counter and the identifiers drawn in a run\<close>

lemma starts_Cons: "starts (e # evs) = starts [e] + starts evs"
  by (cases e) simp_all

lemma nextID_exec: "nextID (exec s e) = nextID s + of_nat (starts [e])"
proof (cases e)
  case (EvStart command args start_err)
  then show ?thesis
    by (cases start_err) (simp_all add: Start_ok_state Start_fail_state)
qed (simp_all add: Stop_state complete_def)

lemma nextID_run: "nextID (run s evs) = nextID s + of_nat (starts evs)"
proof (induction evs arbitrary: s)
  case Nil
  show ?case by (simp add: run_Nil)
next
  case (Cons e evs)
  have "nextID (run s (e # evs)) = nextID (exec s e) + of_nat (starts evs)"
    by (simp add: run_Cons Cons.IH)
  also have "\<dots> = nextID s + of_nat (starts [e]) + of_nat (starts evs)"
    by (simp add: nextID_exec)
  finally show ?case by (simp add: starts_Cons [of e evs])
qed

lemma map_upt_Suc: "map f [0..<Suc n] = f 0 # map (\<lambda>k. f (Suc k)) [0..<n]"
  by (simp only: upt_conv_Cons [of 0 "Suc n"] zero_less_Suc list.map map_Suc_upt [symmetric] map_map comp_def)

lemma issued_eq: "issued s evs = map (nth_id s) [0..<starts evs]"
proof (induction evs arbitrary: s)
  case Nil
  show ?case by simp
next
  case (Cons e evs)
  show ?case
  proof (cases e)
    case (EvStart command args start_err)
    have n: "nextID (exec s e) = nextID s + 1"
      using nextID_exec [of s e] EvStart by simp
    have "issued s (e # evs) = fst (next_id s) # issued (exec s e) evs"
      using EvStart by simp
    also have "\<dots> = nth_id s 0 # map (nth_id (exec s e)) [0..<starts evs]"
      by (simp add: Cons.IH next_id_def nth_id_def)
    also have "map (nth_id (exec s e)) [0..<starts evs] = map (\<lambda>k. nth_id s (Suc k)) [0..<starts evs]"
      by (simp add: nth_id_def n add.assoc)
    also have "nth_id s 0 # map (\<lambda>k. nth_id s (Suc k)) [0..<starts evs] = map (nth_id s) [0..<Suc (starts evs)]"
      by (rule map_upt_Suc [symmetric])
    finally show ?thesis using EvStart by simp
  next
    case (EvStop jid)
    have "nth_id (exec s e) = nth_id s"
      using nextID_exec [of s e] EvStop by (simp add: nth_id_def fun_eq_iff)
    with EvStop Cons.IH [of "exec s e"] show ?thesis by simp
  next
    case (EvGetStatus jid)
    with Cons.IH [of s] show ?thesis by simp
  next
    case (EvGetOutput jid)
    with Cons.IH [of s] show ?thesis by simp
  next
    case (EvWait p wait_err out errs exitCode)
    have "nth_id (exec s e) = nth_id s"
      using nextID_exec [of s e] EvWait by (simp add: nth_id_def fun_eq_iff)
    with EvWait Cons.IH [of "exec s e"] show ?thesis by simp
  qed
qed

lemma word64_of_nat_inj:
  "i < 2 ^ 64 \<Longrightarrow> j < 2 ^ 64 \<Longrightarrow> (of_nat i :: 64 word) = of_nat j \<Longrightarrow> i = j"
proof -
  assume i: "i < 2 ^ 64" and j: "j < 2 ^ 64" and eq: "(of_nat i :: 64 word) = of_nat j"
  from eq have "take_bit 64 i = take_bit 64 j" by (simp add: word_of_nat_eq_iff)
  moreover from i have "take_bit 64 i = i" by (simp add: take_bit_nat_eq_self)
  moreover from j have "take_bit 64 j = j" by (simp add: take_bit_nat_eq_self)
  ultimately show "i = j" by simp
qed

lemma nth_id_inj: "i < 2 ^ 64 \<Longrightarrow> j < 2 ^ 64 \<Longrightarrow> nth_id s i = nth_id s j \<Longrightarrow> i = j"
proof -
  assume i: "i < 2 ^ 64" and j: "j < 2 ^ 64" and eq: "nth_id s i = nth_id s j"
  from eq have "sint (nextID s + of_nat i) = sint (nextID s + of_nat j)"
    unfolding nth_id_def by (rule Itoa_inj)
  then have "nextID s + of_nat i = nextID s + of_nat j" by (rule signed_word_eqI)
  then have "(of_nat i :: 64 word) = of_nat j" by simp
  with i j show ?thesis by (rule word64_of_nat_inj)
qed

lemma distinct_issued: "starts evs \<le> 2 ^ 64 \<Longrightarrow> distinct (issued s evs)"
proof -
  assume b: "starts evs \<le> 2 ^ 64"
  have "inj_on (nth_id s) (set [0..<starts evs])"
  proof (rule inj_onI)
    fix i j assume "i \<in> set [0..<starts evs]" "j \<in> set [0..<starts evs]" and eq: "nth_id s i = nth_id s j"
    with b have "i < 2 ^ 64" "j < 2 ^ 64" by simp_all
    with eq show "i = j" by (simp add: nth_id_inj)
  qed
  then show ?thesis by (simp add: issued_eq distinct_map)
qed

lemma dom_jobs_exec: "dom (jobs (exec s e)) \<subseteq> dom (jobs s) \<union> set (issued s [e])"
proof (cases e)
  case (EvStart command args start_err)
  then show ?thesis
    by (cases start_err) (auto simp: Start_ok_state Start_fail_state next_id_def)
qed (simp_all add: Stop_state complete_def)

lemma issued_Cons: "issued s (e # evs) = issued s [e] @ issued (exec s e) evs"
  by (cases e) simp_all

lemma dom_jobs_run: "dom (jobs (run s evs)) \<subseteq> dom (jobs s) \<union> set (issued s evs)"
proof (induction evs arbitrary: s)
  case Nil
  show ?case by (simp add: run_Nil)
next
  case (Cons e evs)
  have "dom (jobs (run s (e # evs))) \<subseteq> dom (jobs (exec s e)) \<union> set (issued (exec s e) evs)"
    using Cons.IH [of "exec s e"] by (simp add: run_Cons)
  also have "\<dots> \<subseteq> dom (jobs s) \<union> set (issued s [e]) \<union> set (issued (exec s e) evs)"
    using dom_jobs_exec [of s e] by blast
  also have "\<dots> = dom (jobs s) \<union> set (issued s (e # evs))"
    by (simp add: issued_Cons [of s e evs] Un_assoc)
  finally show ?case .
qed

section \<open>The claims\<close>

subsection \<open>Lookups\<close>

text \<open>
  C5: for an identifier that is not a key of \<open>jobs\<close>, \<open>GetStatus\<close> and \<open>GetOutput\<close> both
  return the error \<open>job not found\<close> together with empty strings; for an identifier that
  is a key they return the fields of the job it points at and no error. There is no
  other error they can return.
\<close>

theorem lookup_not_found_iff_absent:
  "(jobs s jid = None \<longrightarrow>
      GetStatus s jid = ([], Some (Errorf ''job not found'')) \<and>
      GetOutput s jid = ([], [], Some (Errorf ''job not found''))) \<and>
   (\<forall>p. jobs s jid = Some p \<longrightarrow>
      GetStatus s jid = (Status (heap s ! p), None) \<and>
      GetOutput s jid = (Stdout (heap s ! p), Stderr (heap s ! p), None))"
  by (simp add: GetStatus_def GetOutput_def)

theorem lookup_not_found_iff_absent_witness:
  "GetStatus (snd (Start init ''echo'' [''hello''] None)) ''2'' = ([], Some (Errorf ''job not found'')) \<and>
   GetOutput (snd (Start init ''echo'' [''hello''] None)) ''2'' = ([], [], Some (Errorf ''job not found'')) \<and>
   GetStatus (snd (Start init ''echo'' [''hello''] None)) ''1'' = (''Running'', None) \<and>
   GetOutput (snd (Start init ''echo'' [''hello''] None)) ''1'' = ([], [], None)"
proof -
  let ?s = "snd (Start init ''echo'' [''hello''] None)"
  have absent: "jobs ?s ''2'' = None"
    by (simp add: Start_ok_state Itoa_1 init_def)
  have present: "jobs ?s ''1'' = Some 0"
    by (simp add: Start_ok_state Itoa_1 init_def)
  have job: "Status (heap ?s ! 0) = ''Running'' \<and> Stdout (heap ?s ! 0) = [] \<and> Stderr (heap ?s ! 0) = []"
    by (simp add: Start_ok_state init_def)
  from lookup_not_found_iff_absent [of ?s "''2''"] absent
    lookup_not_found_iff_absent [of ?s "''1''"] present job
  show ?thesis by simp
qed

subsection \<open>A call of Start that cannot spawn the process\<close>

text \<open>
  C4: when \<open>cmd.Start()\<close> fails, \<open>Start\<close> cancels the context it has just made (the new
  entry of \<open>ctxs\<close> is \<open>True\<close>), returns the empty string with the error, and registers
  nothing: \<open>jobs\<close>, the store of jobs and the set of goroutines are what they were. So
  \<open>GetStatus\<close> still answers \<open>job not found\<close> for every identifier that was not a key
  before the call.
\<close>

theorem failed_start_registers_nothing:
  "fst (Start s command args (Some err)) = ([], Some err) \<and>
   jobs (snd (Start s command args (Some err))) = jobs s \<and>
   heap (snd (Start s command args (Some err))) = heap s \<and>
   waiting (snd (Start s command args (Some err))) = waiting s \<and>
   ctxs (snd (Start s command args (Some err))) = ctxs s @ [True] \<and>
   (\<forall>jid. jobs s jid = None \<longrightarrow>
      GetStatus (snd (Start s command args (Some err))) jid = ([], Some (Errorf ''job not found'')))"
  by (simp add: Start_fail_result Start_fail_state GetStatus_def)

theorem failed_start_registers_nothing_witness:
  "fst (Start init ''no-such-binary'' [] (Some (ExecError ''executable file not found in $PATH'')))
     = ([], Some (ExecError ''executable file not found in $PATH'')) \<and>
   jobs (snd (Start init ''no-such-binary'' [] (Some (ExecError ''executable file not found in $PATH''))))
     = Map.empty \<and>
   heap (snd (Start init ''no-such-binary'' [] (Some (ExecError ''executable file not found in $PATH'')))) = [] \<and>
   ctxs (snd (Start init ''no-such-binary'' [] (Some (ExecError ''executable file not found in $PATH'')))) = [True] \<and>
   GetStatus (snd (Start init ''no-such-binary'' [] (Some (ExecError ''executable file not found in $PATH'')))) ''1''
     = ([], Some (Errorf ''job not found''))"
proof -
  have absent: "jobs init ''1'' = None" by (simp add: init_def)
  have empty: "jobs init = Map.empty \<and> heap init = [] \<and> ctxs init = []" by (simp add: init_def)
  from failed_start_registers_nothing
    [of init "''no-such-binary''" "[]" "ExecError ''executable file not found in $PATH''"]
    absent empty
  show ?thesis by simp
qed

subsection \<open>What Start returns\<close>

text \<open>
  C1 asks that a successful \<open>Start\<close> return the identifier under which the new job is
  registered. The source ends with \<open>return job.Status, nil\<close>: in every state the string
  returned is \<open>Running\<close>, the job is registered under the identifier drawn from the
  counter, and the two differ, since \<open>Itoa\<close> prints digits: the identifier is none of
  the three strings that the source ever stores in \<open>Status\<close>. From the initial state the
  job is registered under \<open>1\<close>, the caller receives \<open>Running\<close>, and \<open>GetStatus\<close> of
  what the caller received answers \<open>job not found\<close>.
\<close>

theorem Start_returns_status_not_id:
  "fst (Start s command args None) = (''Running'', None) \<and>
   jobs (snd (Start s command args None)) (fst (next_id s)) = Some (length (heap s)) \<and>
   fst (fst (Start s command args None)) \<noteq> fst (next_id s) \<and>
   fst (next_id s) \<notin> {''Running'', ''Succeeded'', ''Failed''} \<and>
   fst (Start init ''echo'' [''hello''] None) = (''Running'', None) \<and>
   jobs (snd (Start init ''echo'' [''hello''] None)) ''1'' = Some 0 \<and>
   jobs (snd (Start init ''echo'' [''hello''] None)) ''Running'' = None \<and>
   GetStatus (snd (Start init ''echo'' [''hello''] None)) ''Running''
     = ([], Some (Errorf ''job not found''))"
proof -
  have a: "fst (Start s command args None) = (''Running'', None)"
    by (rule Start_ok_result)
  have b: "jobs (snd (Start s command args None)) (fst (next_id s)) = Some (length (heap s))"
    by (simp add: Start_ok_state next_id_def)
  have c: "fst (fst (Start s command args None)) \<noteq> fst (next_id s)"
    using Itoa_not_Running [of "sint (nextID s)"] by (simp add: Start_ok_result next_id_def)
  have c': "fst (next_id s) \<notin> {''Running'', ''Succeeded'', ''Failed''}"
    using Itoa_not_Running [of "sint (nextID s)"] Itoa_not_status [of "sint (nextID s)"]
    by (simp add: next_id_def)
  have d: "fst (Start init ''echo'' [''hello''] None) = (''Running'', None)"
    by (rule Start_ok_result)
  have e: "jobs (snd (Start init ''echo'' [''hello''] None)) ''1'' = Some 0"
    by (simp add: Start_ok_state Itoa_1 init_def)
  have f: "jobs (snd (Start init ''echo'' [''hello''] None)) ''Running'' = None"
    by (simp add: Start_ok_state Itoa_1 init_def)
  from f have g: "GetStatus (snd (Start init ''echo'' [''hello''] None)) ''Running''
     = ([], Some (Errorf ''job not found''))"
    by (simp add: GetStatus_def)
  from a b c c' d e f g show ?thesis by (intro conjI)
qed

subsection \<open>A job whose process is killed by its cancellation\<close>

text \<open>
  C2 asks that a job stopped while running be recorded as \<open>Stopped\<close>. The goroutine
  writes \<open>Failed\<close> when \<open>cmd.Wait()\<close> returns an error and \<open>Succeeded\<close> otherwise, and
  nothing else: after \<open>Start\<close> of \<open>sleep 10\<close> and \<open>Stop\<close> of job \<open>1\<close> the context is
  cancelled and the job is still \<open>Running\<close>; when \<open>cmd.Wait()\<close> then returns the error
  of the killed process, with exit code \<open>-1\<close>, the status recorded is \<open>Failed\<close>. Whatever
  \<open>cmd.Wait()\<close> returns, the goroutine never records \<open>Stopped\<close>.
\<close>

theorem cancelled_job_recorded_Failed:
  "ctxs (run init [EvStart ''sleep'' [''10''] None, EvStop ''1'']) = [True] \<and>
   GetStatus (run init [EvStart ''sleep'' [''10''] None, EvStop ''1'']) ''1'' = (''Running'', None) \<and>
   GetStatus (run init [EvStart ''sleep'' [''10''] None, EvStop ''1'',
                        EvWait 0 (Some (ExecError ''signal: killed'')) [] [] (- 1)]) ''1''
     = (''Failed'', None) \<and>
   Status (finalize job wait_err out errs exitCode) \<noteq> ''Stopped''"
proof -
  let ?s1 = "snd (Start init ''sleep'' [''10''] None)"
  have j1: "jobs ?s1 ''1'' = Some 0" by (simp add: Start_ok_state Itoa_1 init_def)
  have h1: "heap ?s1 = [\<lparr>ID = ''1'', Command = ''sleep'', Args = [''10''], Status = ''Running'',
      ExitCode = None, Stdout = [], Stderr = [], ctx = 0\<rparr>]"
    by (simp add: Start_ok_state Itoa_1 init_def)
  have c1: "ctxs ?s1 = [False]" by (simp add: Start_ok_state init_def)
  have w1: "waiting ?s1 = {0}" by (simp add: Start_ok_state init_def)
  let ?s2 = "snd (Stop ?s1 ''1'')"
  have c2: "ctxs ?s2 = [True]" by (simp add: Stop_def j1 h1 c1 cancel_def)
  have j2: "jobs ?s2 ''1'' = Some 0" by (simp add: Stop_state j1)
  have h2: "heap ?s2 ! 0 = \<lparr>ID = ''1'', Command = ''sleep'', Args = [''10''], Status = ''Running'',
      ExitCode = None, Stdout = [], Stderr = [], ctx = 0\<rparr>" by (simp add: Stop_state h1)
  have w2: "0 \<in> waiting ?s2" by (simp add: Stop_state w1)
  have r2: "run init [EvStart ''sleep'' [''10''] None, EvStop ''1''] = ?s2"
    by (simp add: run_def)
  have g2: "GetStatus ?s2 ''1'' = (''Running'', None)" by (simp add: GetStatus_def j2 h2)
  let ?s3 = "complete ?s2 0 (Some (ExecError ''signal: killed'')) [] [] (- 1)"
  have r3: "run init [EvStart ''sleep'' [''10''] None, EvStop ''1'',
                        EvWait 0 (Some (ExecError ''signal: killed'')) [] [] (- 1)] = ?s3"
    using w2 by (simp add: run_def)
  have l2: "heap ?s2 = heap ?s1" by (simp add: Stop_state)
  have g3: "GetStatus ?s3 ''1'' = (''Failed'', None)"
    by (simp add: GetStatus_def complete_def j2 l2 h1 finalize_fields)
  have n: "Status (finalize job wait_err out errs exitCode) \<noteq> ''Stopped''"
    by (simp add: finalize_fields)
  from c2 g2 g3 n show ?thesis by (simp only: r2 r3) simp
qed

subsection \<open>Identifiers\<close>

lemma starts_replicate: "starts (replicate n (EvStart command args start_err)) = n"
  by (induction n) simp_all

lemma word64_wrap: "(of_nat (2 ^ 64 :: nat) :: 64 word) = 0"
  by (simp add: word_of_nat_eq_0_iff)

lemma nth_id_init_0: "nth_id init 0 = ''1''"
  by (simp add: nth_id_def init_def Itoa_1)

lemma starts_append: "starts (evs @ evs') = starts evs + starts evs'"
  by (induction evs rule: starts.induct) simp_all

lemma run_replicate_fail:
  "jobs (run s (replicate n (EvStart command args (Some err)))) = jobs s \<and>
   heap (run s (replicate n (EvStart command args (Some err)))) = heap s \<and>
   nextID (run s (replicate n (EvStart command args (Some err)))) = nextID s + of_nat n"
proof (induction n arbitrary: s)
  case 0
  show ?case by (simp add: run_Nil)
next
  case (Suc n)
  let ?t = "exec s (EvStart command args (Some err))"
  have "jobs ?t = jobs s \<and> heap ?t = heap s \<and> nextID ?t = nextID s + 1"
    by (simp add: Start_fail_state)
  with Suc.IH [of ?t] show ?case by (simp add: run_Cons add.assoc)
qed

lemma issued_nth: "k < starts evs \<Longrightarrow> issued s evs ! k = nth_id s k"
  by (simp add: issued_eq)

lemma wrap_run:
  assumes n: "(of_nat (Suc n) :: 64 word) = 0"
  shows "jobs (run init (EvStart c1 a1 None # replicate n (EvStart c2 a2 (Some err)) @ [EvStart c3 a3 None])) ''1''
      = Some 1"
    and "issued init (EvStart c1 a1 None # replicate n (EvStart c2 a2 (Some err)) @ [EvStart c3 a3 None]) ! 0 = ''1''"
    and "issued init (EvStart c1 a1 None # replicate n (EvStart c2 a2 (Some err)) @ [EvStart c3 a3 None]) ! Suc n = ''1''"
proof -
  define s1 where "s1 = exec init (EvStart c1 a1 None)"
  define s2 where "s2 = run s1 (replicate n (EvStart c2 a2 (Some err)))"
  let ?evs = "EvStart c1 a1 None # replicate n (EvStart c2 a2 (Some err)) @ [EvStart c3 a3 None]"
  have h1: "length (heap s1) = 1" and n1: "nextID s1 = 2"
    by (simp_all add: s1_def Start_ok_state init_def)
  have "heap s2 = heap s1" and "nextID s2 = nextID s1 + of_nat n"
    using run_replicate_fail [of s1 n c2 a2 err] by (simp_all only: s2_def)
  with h1 n1 have h2: "length (heap s2) = 1" and n2: "nextID s2 = 2 + of_nat n"
    by simp_all
  have "(2 :: 64 word) + of_nat n = 1 + of_nat (Suc n)" by simp
  also have "\<dots> = 1" by (simp only: n add_0_right)
  finally have n2': "nextID s2 = 1" using n2 by simp
  have r: "run init ?evs = exec s2 (EvStart c3 a3 None)"
    by (simp only: run_Cons run_snoc s1_def s2_def)
  have "jobs (exec s2 (EvStart c3 a3 None)) ''1'' = Some 1"
    by (simp add: Start_ok_state n2' h2 Itoa_1)
  then show "jobs (run init ?evs) ''1'' = Some 1" by (simp only: r)
  have st: "starts ?evs = Suc (Suc n)"
    by (simp add: starts_append starts_replicate)
  have "issued init ?evs ! 0 = nth_id init 0"
    by (rule issued_nth) (simp only: st zero_less_Suc)
  then show "issued init ?evs ! 0 = ''1''" by (simp only: nth_id_init_0)
  have "issued init ?evs ! Suc n = nth_id init (Suc n)"
    by (rule issued_nth) (simp only: st lessI)
  also have "\<dots> = Itoa (sint (1 + of_nat (Suc n) :: 64 word))"
    by (simp only: nth_id_def init_def state.simps)
  also have "\<dots> = Itoa (sint (1 :: 64 word))" by (simp only: n add_0_right)
  also have "\<dots> = ''1''" by (simp add: Itoa_1)
  finally show "issued init ?evs ! Suc n = ''1''" .
qed

lemma Suc_wrap: "Suc (2 ^ 64 - 1) = (2 ^ 64 :: nat)"
  by simp

lemma next_id_run: "fst (next_id (run s evs)) = nth_id s (starts evs)"
  by (simp add: next_id_def nth_id_def nextID_run)

lemma next_key_unused:
  assumes b: "starts evs < 2 ^ 64" and d: "fst (next_id (run s evs)) \<notin> dom (jobs s)"
  shows "jobs (run s evs) (fst (next_id (run s evs))) = None"
proof -
  have "nth_id s (starts evs) \<notin> set (issued s evs)"
  proof
    assume "nth_id s (starts evs) \<in> set (issued s evs)"
    then obtain k where k: "k < starts evs" and eq: "nth_id s k = nth_id s (starts evs)"
      by (auto simp: issued_eq)
    from k b have "k < 2 ^ 64" by simp
    with b eq have "k = starts evs" by (simp add: nth_id_inj)
    with k show False by simp
  qed
  with d dom_jobs_run [of s evs] have "fst (next_id (run s evs)) \<notin> dom (jobs (run s evs))"
    by (auto simp: next_id_run)
  then show ?thesis by (simp add: domIff)
qed

lemma Itoa_3: "Itoa 3 = ''3''"
  by (simp add: Itoa_def digits.simps digit_def)

text \<open>
  C7 as stated, identifiers distinct for the whole life of the registry and never reused,
  fails once the counter has gone round: \<open>nextID\<close> is a 64-bit \<open>int\<close>, and \<open>nextID++\<close> wraps.
  Take a successful call of \<open>Start\<close>, then \<open>2 ^ 64 - 1\<close> calls that cannot spawn their
  process (each draws an identifier all the same), then one more successful call. The
  first call and the last both draw the identifier \<open>1\<close>, and the key \<open>1\<close> of \<open>jobs\<close>,
  which pointed at the first job, points at the last one afterwards.
\<close>

theorem identifier_reissued_after_wrap:
  "jobs (run init [EvStart ''echo'' [''first''] None]) ''1'' = Some 0 \<and>
   jobs (run init (EvStart ''echo'' [''first''] None
          # replicate (2 ^ 64 - 1) (EvStart ''no-such-binary'' [] (Some (ExecError ''executable file not found in $PATH'')))
          @ [EvStart ''echo'' [''last''] None])) ''1'' = Some 1 \<and>
   issued init (EvStart ''echo'' [''first''] None
          # replicate (2 ^ 64 - 1) (EvStart ''no-such-binary'' [] (Some (ExecError ''executable file not found in $PATH'')))
          @ [EvStart ''echo'' [''last''] None]) ! 0 = ''1'' \<and>
   issued init (EvStart ''echo'' [''first''] None
          # replicate (2 ^ 64 - 1) (EvStart ''no-such-binary'' [] (Some (ExecError ''executable file not found in $PATH'')))
          @ [EvStart ''echo'' [''last''] None]) ! (2 ^ 64) = ''1''"
proof -
  have w: "(of_nat (Suc (2 ^ 64 - 1)) :: 64 word) = 0"
    by (simp only: Suc_wrap word64_wrap)
  have a: "jobs (run init [EvStart ''echo'' [''first''] None]) ''1'' = Some 0"
    by (simp add: run_def Start_ok_state init_def Itoa_1)
  note b = wrap_run(1) [OF w, of "''echo''" "[''first'']" "''no-such-binary''" "[]"
      "ExecError ''executable file not found in $PATH''" "''echo''" "[''last'']"]
  note c = wrap_run(2) [OF w, of "''echo''" "[''first'']" "''no-such-binary''" "[]"
      "ExecError ''executable file not found in $PATH''" "''echo''" "[''last'']"]
  note d = wrap_run(3) [OF w, of "''echo''" "[''first'']" "''no-such-binary''" "[]"
      "ExecError ''executable file not found in $PATH''" "''echo''" "[''last'']", unfolded Suc_wrap]
  from a b c d show ?thesis by (intro conjI)
qed

text \<open>
  C7, amended: in a run from the initial state with at most \<open>2 ^ 64\<close> calls of \<open>Start\<close>
  the identifiers drawn are pairwise distinct; with fewer than \<open>2 ^ 64\<close> calls, the
  identifier that the next call will draw is not yet a key of \<open>jobs\<close>; and in every
  reachable state each key of \<open>jobs\<close> points at one job of the store, which carries that
  key as its \<open>ID\<close>.
\<close>

theorem identifiers_distinct_until_wrap:
  "(starts evs \<le> 2 ^ 64 \<longrightarrow> distinct (issued init evs)) \<and>
   (starts evs < 2 ^ 64 \<longrightarrow> jobs (run init evs) (fst (next_id (run init evs))) = None) \<and>
   (\<forall>jid p. jobs (run init evs) jid = Some p \<longrightarrow>
      p < length (heap (run init evs)) \<and> ID (heap (run init evs) ! p) = jid)"
proof -
  have a: "starts evs \<le> 2 ^ 64 \<longrightarrow> distinct (issued init evs)"
    by (simp add: distinct_issued)
  have "dom (jobs init) = {}" by (simp add: init_def)
  then have b: "starts evs < 2 ^ 64 \<longrightarrow> jobs (run init evs) (fst (next_id (run init evs))) = None"
    by (simp add: next_key_unused)
  have "jobs_ok (run init evs)" by (simp add: jobs_ok_run jobs_ok_init)
  then have c: "\<forall>jid p. jobs (run init evs) jid = Some p \<longrightarrow>
      p < length (heap (run init evs)) \<and> ID (heap (run init evs) ! p) = jid"
    by (simp add: jobs_ok_def)
  from a b c show ?thesis by (intro conjI)
qed

theorem identifiers_distinct_until_wrap_witness:
  "issued init [EvStart ''echo'' [''a''] None, EvStart ''echo'' [''b''] None] = [''1'', ''2''] \<and>
   distinct (issued init [EvStart ''echo'' [''a''] None, EvStart ''echo'' [''b''] None]) \<and>
   jobs (run init [EvStart ''echo'' [''a''] None, EvStart ''echo'' [''b''] None]) ''3'' = None \<and>
   jobs (run init [EvStart ''echo'' [''a''] None, EvStart ''echo'' [''b''] None]) ''2'' = Some 1 \<and>
   ID (heap (run init [EvStart ''echo'' [''a''] None, EvStart ''echo'' [''b''] None]) ! 1) = ''2''"
proof -
  let ?evs = "[EvStart ''echo'' [''a''] None, EvStart ''echo'' [''b''] None]"
  have n: "starts ?evs \<le> 2 ^ 64" "starts ?evs < 2 ^ 64" by simp_all
  have i: "issued init ?evs = [''1'', ''2'']"
    by (simp add: next_id_def Start_ok_state init_def Itoa_1 Itoa_2)
  have k: "fst (next_id (run init ?evs)) = ''3''"
    by (simp add: run_def next_id_def Start_ok_state init_def Itoa_3)
  have j: "jobs (run init ?evs) ''2'' = Some 1"
    by (simp add: run_def Start_ok_state init_def Itoa_1 Itoa_2)
  from identifiers_distinct_until_wrap [of ?evs] n i k j show ?thesis by simp
qed

lemma wrap_after_failed_start:
  assumes n: "(of_nat (Suc n) :: 64 word) = 0"
  shows "jobs (run (snd (Start init c1 a1 (Some e1))) (replicate n (EvStart c2 a2 (Some e2)) @ [EvStart c3 a3 None])) ''1''
      = Some 0"
proof -
  define s1 where "s1 = snd (Start init c1 a1 (Some e1))"
  define s2 where "s2 = run s1 (replicate n (EvStart c2 a2 (Some e2)))"
  have h1: "heap s1 = []" and n1: "nextID s1 = 2"
    by (simp_all add: s1_def Start_fail_state init_def)
  have "heap s2 = heap s1" and "nextID s2 = nextID s1 + of_nat n"
    using run_replicate_fail [of s1 n c2 a2 e2] by (simp_all only: s2_def)
  with h1 n1 have h2: "length (heap s2) = 0" and n2: "nextID s2 = 2 + of_nat n"
    by simp_all
  have "(2 :: 64 word) + of_nat n = 1 + of_nat (Suc n)" by simp
  also have "\<dots> = 1" by (simp only: n add_0_right)
  finally have n2': "nextID s2 = 1" using n2 by simp
  have r: "run s1 (replicate n (EvStart c2 a2 (Some e2)) @ [EvStart c3 a3 None]) = exec s2 (EvStart c3 a3 None)"
    by (simp only: run_snoc s2_def)
  have "jobs (exec s2 (EvStart c3 a3 None)) ''1'' = Some 0"
    by (simp add: Start_ok_state n2' h2 Itoa_1)
  then have "jobs (run s1 (replicate n (EvStart c2 a2 (Some e2)) @ [EvStart c3 a3 None])) ''1'' = Some 0"
    by (simp only: r)
  then show ?thesis unfolding s1_def .
qed

text \<open>
  C10 as stated has the failed call consume its identifier for good. The counter is a
  64-bit \<open>int\<close> and goes round: from the initial state a call of \<open>Start\<close> that cannot
  spawn its process draws \<open>1\<close> and registers nothing; after \<open>2 ^ 64 - 1\<close> more such calls
  a successful call draws \<open>1\<close> again and registers its job under it.
\<close>

theorem consumed_identifier_registered_after_wrap:
  "fst (next_id init) = ''1'' \<and>
   jobs (snd (Start init ''no-such-binary'' [] (Some (ExecError ''executable file not found in $PATH'')))) ''1'' = None \<and>
   jobs (run (snd (Start init ''no-such-binary'' [] (Some (ExecError ''executable file not found in $PATH''))))
          (replicate (2 ^ 64 - 1) (EvStart ''no-such-binary'' [] (Some (ExecError ''executable file not found in $PATH'')))
           @ [EvStart ''echo'' [''hello''] None])) ''1'' = Some 0"
proof -
  have w: "(of_nat (Suc (2 ^ 64 - 1)) :: 64 word) = 0"
    by (simp only: Suc_wrap word64_wrap)
  have a: "fst (next_id init) = ''1''"
    by (simp add: next_id_def init_def Itoa_1)
  have b: "jobs (snd (Start init ''no-such-binary'' [] (Some (ExecError ''executable file not found in $PATH'')))) ''1'' = None"
    by (simp add: Start_fail_state init_def)
  note c = wrap_after_failed_start [OF w, of "''no-such-binary''" "[]"
      "ExecError ''executable file not found in $PATH''" "''no-such-binary''" "[]"
      "ExecError ''executable file not found in $PATH''" "''echo''" "[''hello'']"]
  from a b c show ?thesis by (intro conjI)
qed

text \<open>
  C10, amended: a call of \<open>Start\<close> that cannot spawn the process leaves \<open>jobs\<close> as it was
  and has incremented \<open>nextID\<close>. The identifier it drew is not the one the next call
  draws, and it is registered by no later call for as long as the counter has not gone
  round, that is for fewer than \<open>2 ^ 64\<close> later calls: the keys of \<open>jobs\<close> have a gap
  there. From the initial state, a failed call followed by a successful one registers
  the job under \<open>2\<close> and nothing under \<open>1\<close>.
\<close>

theorem failed_start_consumes_identifier:
  "nextID (snd (Start s command args (Some err))) = nextID s + 1 \<and>
   jobs (snd (Start s command args (Some err))) = jobs s \<and>
   fst (next_id (snd (Start s command args (Some err)))) \<noteq> fst (next_id s) \<and>
   (jobs s (fst (next_id s)) = None \<and> starts evs < 2 ^ 64 \<longrightarrow>
      jobs (run (snd (Start s command args (Some err))) evs) (fst (next_id s)) = None) \<and>
   jobs (run init [EvStart ''no-such-binary'' [] (Some (ExecError ''executable file not found in $PATH'')),
                   EvStart ''echo'' [''hello''] None]) ''1'' = None \<and>
   jobs (run init [EvStart ''no-such-binary'' [] (Some (ExecError ''executable file not found in $PATH'')),
                   EvStart ''echo'' [''hello''] None]) ''2'' = Some 0"
proof -
  let ?s' = "snd (Start s command args (Some err))"
  have a: "nextID ?s' = nextID s + 1" by (simp add: Start_fail_state)
  have b: "jobs ?s' = jobs s" by (simp add: Start_fail_state)
  have c: "fst (next_id ?s') \<noteq> fst (next_id s)"
  proof
    assume "fst (next_id ?s') = fst (next_id s)"
    then have "nextID ?s' = nextID s" by (rule next_id_inj)
    with a show False by simp
  qed
  have d: "jobs s (fst (next_id s)) = None \<and> starts evs < 2 ^ 64 \<longrightarrow>
      jobs (run ?s' evs) (fst (next_id s)) = None"
  proof
    assume h: "jobs s (fst (next_id s)) = None \<and> starts evs < 2 ^ 64"
    have "nth_id s 0 \<notin> set (issued ?s' evs)"
    proof
      assume "nth_id s 0 \<in> set (issued ?s' evs)"
      then obtain k where k: "k < starts evs" and eq: "nth_id ?s' k = nth_id s 0"
        by (auto simp: issued_eq)
      have "nth_id ?s' k = nth_id s (Suc k)" by (simp add: nth_id_def a add.assoc)
      with eq have "nth_id s (Suc k) = nth_id s 0" by simp
      moreover from k h have "Suc k < 2 ^ 64" by simp
      moreover have "(0::nat) < 2 ^ 64" by simp
      ultimately have "Suc k = 0" by (rule nth_id_inj [rotated 2])
      then show False by simp
    qed
    moreover have "fst (next_id s) = nth_id s 0" by (simp add: next_id_def nth_id_def)
    moreover from h b have "fst (next_id s) \<notin> dom (jobs ?s')" by (simp add: domIff)
    ultimately have "fst (next_id s) \<notin> dom (jobs (run ?s' evs))"
      using dom_jobs_run [of ?s' evs] by auto
    then show "jobs (run ?s' evs) (fst (next_id s)) = None" by (simp add: domIff)
  qed
  have e: "jobs (run init [EvStart ''no-such-binary'' [] (Some (ExecError ''executable file not found in $PATH'')),
                   EvStart ''echo'' [''hello''] None]) ''1'' = None"
    by (simp add: run_def Start_ok_state Start_fail_state init_def Itoa_2)
  have f: "jobs (run init [EvStart ''no-such-binary'' [] (Some (ExecError ''executable file not found in $PATH'')),
                   EvStart ''echo'' [''hello''] None]) ''2'' = Some 0"
    by (simp add: run_def Start_ok_state Start_fail_state init_def Itoa_2)
  from a b c d e f show ?thesis by (intro conjI)
qed

theorem failed_start_consumes_identifier_witness:
  "nextID (snd (Start init ''no-such-binary'' [] (Some (ExecError ''executable file not found in $PATH'')))) = 2 \<and>
   jobs (run (snd (Start init ''no-such-binary'' [] (Some (ExecError ''executable file not found in $PATH''))))
          [EvStart ''echo'' [''hello''] None, EvStart ''echo'' [''again''] None]) ''1'' = None"
proof -
  have h: "jobs init (fst (next_id init)) = None" by (simp add: init_def)
  have n: "starts [EvStart ''echo'' [''hello''] None, EvStart ''echo'' [''again''] None] < 2 ^ 64" by simp
  have i: "fst (next_id init) = ''1''" by (simp add: next_id_def init_def Itoa_1)
  have c: "nextID init + 1 = 2" by (simp add: init_def)
  from failed_start_consumes_identifier
    [of init "''no-such-binary''" "[]" "ExecError ''executable file not found in $PATH''"
        "[EvStart ''echo'' [''hello''] None, EvStart ''echo'' [''again''] None]"]
    h n i c show ?thesis by simp
qed

subsection \<open>The status of a job\<close>

lemma heap_length_exec: "length (heap s) \<le> length (heap (exec s e))"
proof (cases e)
  case (EvStart command args start_err)
  then show ?thesis
    by (cases start_err) (simp_all add: Start_ok_state Start_fail_state)
qed (simp_all add: Stop_state complete_def)

lemma heap_exec_cases:
  assumes w: "waiting_ok s" and p: "p < length (heap s)"
  shows "heap (exec s e) ! p = heap s ! p \<or>
    (Status (heap s ! p) = ''Running'' \<and>
     (\<exists>wait_err out errs exitCode. heap (exec s e) ! p = finalize (heap s ! p) wait_err out errs exitCode))"
proof (cases e)
  case (EvStart command args start_err)
  with p show ?thesis
    by (cases start_err) (simp_all add: Start_ok_state Start_fail_state nth_append)
next
  case (EvStop jid)
  then show ?thesis by (simp add: Stop_state)
next
  case (EvWait q wait_err out errs exitCode)
  show ?thesis
  proof (cases "q \<in> waiting s \<and> q = p")
    case True
    then have q: "q = p" and pw: "p \<in> waiting s" by blast+
    from w pw have "Status (heap s ! p) = ''Running''" by (simp add: waiting_ok_def)
    moreover from q pw EvWait p
    have "heap (exec s e) ! p = finalize (heap s ! p) wait_err out errs exitCode"
      by (simp add: complete_def)
    ultimately show ?thesis by blast
  next
    case False
    with EvWait p have "heap (exec s e) ! p = heap s ! p"
      by (auto simp: complete_def)
    then show ?thesis by simp
  qed
qed simp_all

lemma status_exec:
  assumes w: "waiting_ok s" and p: "p < length (heap s)"
  shows "Status (heap (exec s e) ! p) = Status (heap s ! p) \<or>
     Status (heap s ! p) = ''Running'' \<and>
     Status (heap (exec s e) ! p) \<in> {''Succeeded'', ''Failed'', ''Stopped''}"
proof -
  from heap_exec_cases [OF w p, of e]
  consider "heap (exec s e) ! p = heap s ! p"
    | wait_err out errs exitCode where "Status (heap s ! p) = ''Running''"
        "heap (exec s e) ! p = finalize (heap s ! p) wait_err out errs exitCode"
    by blast
  then show ?thesis
  proof cases
    case 1
    then show ?thesis by simp
  next
    case 2
    then show ?thesis by (simp add: finalize_fields)
  qed
qed

lemma status_terminal_run:
  "waiting_ok s \<Longrightarrow> p < length (heap s) \<Longrightarrow> Status (heap s ! p) \<noteq> ''Running'' \<Longrightarrow>
     p < length (heap (run s evs)) \<and> Status (heap (run s evs) ! p) = Status (heap s ! p)"
proof (induction evs arbitrary: s)
  case Nil
  then show ?case by (simp add: run_Nil)
next
  case (Cons e evs)
  from Cons.prems have w: "waiting_ok (exec s e)" by (simp add: waiting_ok_exec)
  from Cons.prems heap_length_exec [of s e] have p: "p < length (heap (exec s e))" by simp
  from Cons.prems status_exec [of s p e]
  have st: "Status (heap (exec s e) ! p) = Status (heap s ! p)" by auto
  with Cons.prems have "Status (heap (exec s e) ! p) \<noteq> ''Running''" by simp
  with Cons.IH [OF w p] st show ?case by (simp add: run_Cons)
qed

text \<open>
  C3: every entry of \<open>jobs\<close> points at a job of the store, and for every job of the
  store, in every reachable state: one more step (a call of \<open>Start\<close>, \<open>Stop\<close>,
  \<open>GetStatus\<close> or \<open>GetOutput\<close>, or the end of a goroutine) either leaves its status as
  it is or takes it from \<open>Running\<close> to one of \<open>Succeeded\<close>, \<open>Failed\<close>, \<open>Stopped\<close>; and once
  the status is not \<open>Running\<close>, it is the same after any further run.
\<close>

theorem status_set_once:
  "(jobs (run init evs) jid = Some p \<longrightarrow> p < length (heap (run init evs))) \<and>
   (p < length (heap (run init evs)) \<longrightarrow>
      p < length (heap (exec (run init evs) e)) \<and>
      (Status (heap (exec (run init evs) e) ! p) = Status (heap (run init evs) ! p) \<or>
       Status (heap (run init evs) ! p) = ''Running'' \<and>
       Status (heap (exec (run init evs) e) ! p) \<in> {''Succeeded'', ''Failed'', ''Stopped''}) \<and>
      (Status (heap (run init evs) ! p) \<noteq> ''Running'' \<longrightarrow>
         p < length (heap (run init (evs @ evs'))) \<and>
         Status (heap (run init (evs @ evs')) ! p) = Status (heap (run init evs) ! p)))"
proof -
  let ?s = "run init evs"
  have w: "waiting_ok ?s" by (simp add: waiting_ok_run waiting_ok_init)
  have "jobs_ok ?s" by (simp add: jobs_ok_run jobs_ok_init)
  then have a: "jobs ?s jid = Some p \<longrightarrow> p < length (heap ?s)" by (simp add: jobs_ok_def)
  have b: "p < length (heap ?s) \<longrightarrow>
      p < length (heap (exec ?s e)) \<and>
      (Status (heap (exec ?s e) ! p) = Status (heap ?s ! p) \<or>
       Status (heap ?s ! p) = ''Running'' \<and>
       Status (heap (exec ?s e) ! p) \<in> {''Succeeded'', ''Failed'', ''Stopped''}) \<and>
      (Status (heap ?s ! p) \<noteq> ''Running'' \<longrightarrow>
         p < length (heap (run init (evs @ evs'))) \<and>
         Status (heap (run init (evs @ evs')) ! p) = Status (heap ?s ! p))"
  proof
    assume p: "p < length (heap ?s)"
    from p heap_length_exec [of ?s e] have 1: "p < length (heap (exec ?s e))" by simp
    note 2 = status_exec [OF w p, of e]
    have 3: "Status (heap ?s ! p) \<noteq> ''Running'' \<longrightarrow>
         p < length (heap (run init (evs @ evs'))) \<and>
         Status (heap (run init (evs @ evs')) ! p) = Status (heap ?s ! p)"
      using status_terminal_run [OF w p, of evs'] by (simp add: run_append)
    from 1 2 3 show "p < length (heap (exec ?s e)) \<and>
      (Status (heap (exec ?s e) ! p) = Status (heap ?s ! p) \<or>
       Status (heap ?s ! p) = ''Running'' \<and>
       Status (heap (exec ?s e) ! p) \<in> {''Succeeded'', ''Failed'', ''Stopped''}) \<and>
      (Status (heap ?s ! p) \<noteq> ''Running'' \<longrightarrow>
         p < length (heap (run init (evs @ evs'))) \<and>
         Status (heap (run init (evs @ evs')) ! p) = Status (heap ?s ! p))"
      by (intro conjI)
  qed
  from a b show ?thesis by (intro conjI)
qed

theorem status_set_once_witness:
  "jobs (run init [EvStart ''echo'' [''hello''] None, EvWait 0 None ''hello'' [] 0]) ''1'' = Some 0 \<and>
   Status (heap (run init [EvStart ''echo'' [''hello''] None]) ! 0) = ''Running'' \<and>
   Status (heap (run init [EvStart ''echo'' [''hello''] None, EvWait 0 None ''hello'' [] 0]) ! 0) = ''Succeeded'' \<and>
   Status (heap (run init ([EvStart ''echo'' [''hello''] None, EvWait 0 None ''hello'' [] 0] @
       [EvStop ''1'', EvWait 0 (Some (ExecError ''signal: killed'')) [] [] (- 1)])) ! 0) = ''Succeeded''"
proof -
  let ?evs = "[EvStart ''echo'' [''hello''] None, EvWait 0 None ''hello'' [] 0]"
  let ?evs' = "[EvStop ''1'', EvWait 0 (Some (ExecError ''signal: killed'')) [] [] (- 1)]"
  have j: "jobs (run init ?evs) ''1'' = Some 0"
    by (simp add: run_def Start_ok_state complete_def init_def Itoa_1)
  have r: "Status (heap (run init [EvStart ''echo'' [''hello''] None]) ! 0) = ''Running''"
    by (simp add: run_def Start_ok_state init_def)
  have l: "0 < length (heap (run init ?evs))"
    by (simp add: run_def Start_ok_state complete_def init_def)
  have t: "Status (heap (run init ?evs) ! 0) = ''Succeeded''"
    by (simp add: run_def Start_ok_state complete_def init_def finalize_fields)
  from status_set_once [of ?evs "''1''" 0 "EvStop ''1''" ?evs'] j l t r
  show ?thesis by simp
qed

subsection \<open>The output of a job\<close>

text \<open>
  C6: in every reachable state a job whose status is \<open>Running\<close> has empty \<open>Stdout\<close> and
  empty \<open>Stderr\<close>; so when \<open>GetStatus\<close> answers \<open>Running\<close> for an identifier, \<open>GetOutput\<close>
  answers two empty strings for it; and a step that changes the \<open>Stdout\<close> or the \<open>Stderr\<close>
  of a job is the step that takes its status from \<open>Running\<close> to another value.
\<close>

theorem running_job_has_no_output:
  "(\<forall>p < length (heap (run init evs)). Status (heap (run init evs) ! p) = ''Running'' \<longrightarrow>
      Stdout (heap (run init evs) ! p) = [] \<and> Stderr (heap (run init evs) ! p) = []) \<and>
   (GetStatus (run init evs) jid = (''Running'', None) \<longrightarrow>
      GetOutput (run init evs) jid = ([], [], None)) \<and>
   (\<forall>p < length (heap (run init evs)).
      Stdout (heap (exec (run init evs) e) ! p) \<noteq> Stdout (heap (run init evs) ! p) \<or>
      Stderr (heap (exec (run init evs) e) ! p) \<noteq> Stderr (heap (run init evs) ! p) \<longrightarrow>
      Status (heap (run init evs) ! p) = ''Running'' \<and>
      Status (heap (exec (run init evs) e) ! p) \<noteq> ''Running'')"
proof -
  let ?s = "run init evs"
  have w: "waiting_ok ?s" by (simp add: waiting_ok_run waiting_ok_init)
  have j: "jobs_ok ?s" by (simp add: jobs_ok_run jobs_ok_init)
  have o: "output_ok ?s" by (simp add: output_ok_run output_ok_init)
  from o have a: "\<forall>p < length (heap ?s). Status (heap ?s ! p) = ''Running'' \<longrightarrow>
      Stdout (heap ?s ! p) = [] \<and> Stderr (heap ?s ! p) = []"
    by (simp add: output_ok_def)
  have b: "GetStatus ?s jid = (''Running'', None) \<longrightarrow> GetOutput ?s jid = ([], [], None)"
  proof
    assume g: "GetStatus ?s jid = (''Running'', None)"
    then obtain p where p: "jobs ?s jid = Some p" and st: "Status (heap ?s ! p) = ''Running''"
      by (auto simp: GetStatus_def split: option.splits)
    from j p have "p < length (heap ?s)" by (simp add: jobs_ok_def)
    with a st have "Stdout (heap ?s ! p) = [] \<and> Stderr (heap ?s ! p) = []" by simp
    with p show "GetOutput ?s jid = ([], [], None)" by (simp add: GetOutput_def)
  qed
  have c: "\<forall>p < length (heap ?s).
      Stdout (heap (exec ?s e) ! p) \<noteq> Stdout (heap ?s ! p) \<or>
      Stderr (heap (exec ?s e) ! p) \<noteq> Stderr (heap ?s ! p) \<longrightarrow>
      Status (heap ?s ! p) = ''Running'' \<and> Status (heap (exec ?s e) ! p) \<noteq> ''Running''"
  proof (intro allI impI)
    fix p assume p: "p < length (heap ?s)"
      and ch: "Stdout (heap (exec ?s e) ! p) \<noteq> Stdout (heap ?s ! p) \<or>
               Stderr (heap (exec ?s e) ! p) \<noteq> Stderr (heap ?s ! p)"
    from heap_exec_cases [OF w p, of e]
    consider "heap (exec ?s e) ! p = heap ?s ! p"
      | wait_err out errs exitCode where "Status (heap ?s ! p) = ''Running''"
          "heap (exec ?s e) ! p = finalize (heap ?s ! p) wait_err out errs exitCode"
      by blast
    then show "Status (heap ?s ! p) = ''Running'' \<and> Status (heap (exec ?s e) ! p) \<noteq> ''Running''"
    proof cases
      case 1
      with ch show ?thesis by simp
    next
      case 2
      then show ?thesis by (simp add: finalize_fields)
    qed
  qed
  from a b c show ?thesis by (intro conjI)
qed

theorem running_job_has_no_output_witness:
  "GetStatus (run init [EvStart ''echo'' [''hello''] None]) ''1'' = (''Running'', None) \<and>
   GetOutput (run init [EvStart ''echo'' [''hello''] None]) ''1'' = ([], [], None) \<and>
   Stdout (heap (run init [EvStart ''echo'' [''hello''] None]) ! 0) = [] \<and>
   Stdout (heap (exec (run init [EvStart ''echo'' [''hello''] None]) (EvWait 0 None ''hello'' [] 0)) ! 0) = ''hello'' \<and>
   Status (heap (exec (run init [EvStart ''echo'' [''hello''] None]) (EvWait 0 None ''hello'' [] 0)) ! 0) \<noteq> ''Running''"
proof -
  let ?evs = "[EvStart ''echo'' [''hello''] None]"
  have g: "GetStatus (run init ?evs) ''1'' = (''Running'', None)"
    by (simp add: GetStatus_def run_def Start_ok_state init_def Itoa_1)
  have l: "0 < length (heap (run init ?evs))"
    by (simp add: run_def Start_ok_state init_def)
  have r: "Status (heap (run init ?evs) ! 0) = ''Running''"
    by (simp add: run_def Start_ok_state init_def)
  have x: "Stdout (heap (exec (run init ?evs) (EvWait 0 None ''hello'' [] 0)) ! 0) = ''hello''"
    by (simp add: run_def Start_ok_state complete_def init_def finalize_fields)
  have y: "Stdout (heap (run init ?evs) ! 0) = []"
    by (simp add: run_def Start_ok_state init_def)
  note inst = running_job_has_no_output [of ?evs "''1''" "EvWait 0 None ''hello'' [] 0"]
  from inst g have o: "GetOutput (run init ?evs) ''1'' = ([], [], None)" by blast
  from inst l have "Stdout (heap (exec (run init ?evs) (EvWait 0 None ''hello'' [] 0)) ! 0)
        \<noteq> Stdout (heap (run init ?evs) ! 0) \<or>
      Stderr (heap (exec (run init ?evs) (EvWait 0 None ''hello'' [] 0)) ! 0)
        \<noteq> Stderr (heap (run init ?evs) ! 0) \<longrightarrow>
      Status (heap (run init ?evs) ! 0) = ''Running'' \<and>
      Status (heap (exec (run init ?evs) (EvWait 0 None ''hello'' [] 0)) ! 0) \<noteq> ''Running''"
    by blast
  moreover have "Stdout (heap (exec (run init ?evs) (EvWait 0 None ''hello'' [] 0)) ! 0)
        \<noteq> Stdout (heap (run init ?evs) ! 0)"
    by (simp only: x y) simp
  ultimately have n: "Status (heap (exec (run init ?evs) (EvWait 0 None ''hello'' [] 0)) ! 0) \<noteq> ''Running''"
    by blast
  from g o y x n show ?thesis by (intro conjI)
qed

subsection \<open>Stop\<close>

lemma cancel_twice: "cancel c (cancel c s) = cancel c s"
  by (simp add: cancel_def)

lemma cancel_fields: "heap (cancel c s) = heap s" "jobs (cancel c s) = jobs s"
  "waiting (cancel c s) = waiting s" "nextID (cancel c s) = nextID s"
  by (simp_all add: cancel_def)

text \<open>
  C8, for \<open>Stop\<close> as the specification gives it: \<open>Stop\<close> returns \<open>job not found\<close>, and
  changes nothing, when the identifier is not a key of \<open>jobs\<close>, and only then. For a
  registered job it returns no error and leaves every job of the store as it is
  (status, exit code and output included), whatever the job's status; a second \<open>Stop\<close>
  returns no error either and leaves the state as the first one left it.
\<close>

theorem Stop_idempotent:
  "(jobs s jid = None \<longrightarrow> Stop s jid = (Some (Errorf ''job not found''), s)) \<and>
   (\<forall>p. jobs s jid = Some p \<longrightarrow>
      fst (Stop s jid) = None \<and>
      heap (snd (Stop s jid)) = heap s \<and>
      jobs (snd (Stop s jid)) = jobs s \<and>
      waiting (snd (Stop s jid)) = waiting s \<and>
      nextID (snd (Stop s jid)) = nextID s \<and>
      Stop (snd (Stop s jid)) jid = (None, snd (Stop s jid)))"
proof -
  have a: "jobs s jid = None \<longrightarrow> Stop s jid = (Some (Errorf ''job not found''), s)"
    by (simp add: Stop_def)
  have b: "\<forall>p. jobs s jid = Some p \<longrightarrow>
      fst (Stop s jid) = None \<and>
      heap (snd (Stop s jid)) = heap s \<and>
      jobs (snd (Stop s jid)) = jobs s \<and>
      waiting (snd (Stop s jid)) = waiting s \<and>
      nextID (snd (Stop s jid)) = nextID s \<and>
      Stop (snd (Stop s jid)) jid = (None, snd (Stop s jid))"
  proof (intro allI impI)
    fix p assume p: "jobs s jid = Some p"
    then have st: "Stop s jid = (None, cancel (ctx (heap s ! p)) s)" by (simp add: Stop_def)
    have "Stop (cancel (ctx (heap s ! p)) s) jid = (None, cancel (ctx (heap s ! p)) s)"
      using p by (simp add: Stop_def cancel_fields cancel_twice)
    with st show "fst (Stop s jid) = None \<and>
      heap (snd (Stop s jid)) = heap s \<and>
      jobs (snd (Stop s jid)) = jobs s \<and>
      waiting (snd (Stop s jid)) = waiting s \<and>
      nextID (snd (Stop s jid)) = nextID s \<and>
      Stop (snd (Stop s jid)) jid = (None, snd (Stop s jid))"
      by (simp add: cancel_fields)
  qed
  from a b show ?thesis by (intro conjI)
qed

theorem Stop_idempotent_witness:
  "Stop init ''999'' = (Some (Errorf ''job not found''), init) \<and>
   fst (Stop (run init [EvStart ''echo'' [''hello''] None, EvWait 0 None ''hello'' [] 0]) ''1'') = None \<and>
   Status (heap (snd (Stop (run init [EvStart ''echo'' [''hello''] None, EvWait 0 None ''hello'' [] 0]) ''1'')) ! 0)
     = ''Succeeded'' \<and>
   fst (Stop (snd (Stop (run init [EvStart ''echo'' [''hello''] None, EvWait 0 None ''hello'' [] 0]) ''1'')) ''1'')
     = None"
proof -
  let ?s = "run init [EvStart ''echo'' [''hello''] None, EvWait 0 None ''hello'' [] 0]"
  have n: "jobs init ''999'' = None" by (simp add: init_def)
  have j: "jobs ?s ''1'' = Some 0"
    by (simp add: run_def Start_ok_state complete_def init_def Itoa_1)
  have t: "Status (heap ?s ! 0) = ''Succeeded''"
    by (simp add: run_def Start_ok_state complete_def init_def finalize_fields)
  from Stop_idempotent [of init "''999''"] n have a: "Stop init ''999'' = (Some (Errorf ''job not found''), init)"
    by blast
  from Stop_idempotent [of ?s "''1''"] j
  have b: "fst (Stop ?s ''1'') = None \<and> heap (snd (Stop ?s ''1'')) = heap ?s \<and>
      Stop (snd (Stop ?s ''1'')) ''1'' = (None, snd (Stop ?s ''1''))"
    by blast
  from a b t show ?thesis by simp
qed

subsection \<open>The goroutine runs on a job that is Running\<close>



end
